theory Spec2Isabelle
  imports Main
begin

section \<open>Python strings\<close>

text \<open>
  A Python \<^verbatim>\<open>str\<close> is a sequence of Unicode code points, so a string is modelled as a
  list of natural numbers, one per code point. \<open>ustr\<close> embeds an ASCII literal.
\<close>

type_synonym str = "nat list"

definition ustr :: "string \<Rightarrow> str" where
  "ustr cs = map of_char cs"

text \<open>
  What Python does with a code point beyond ASCII is decided by the Unicode character
  database of the interpreter, which is no part of the repository. These functions stand
  for it and are left unspecified: a theorem below holds whatever the database says, and
  no evaluation on an ASCII input ever reaches them.
\<close>

definition unicode_lower :: "str \<Rightarrow> str" where
  "unicode_lower = undefined"

definition unicode_ignorecase_eq :: "nat \<Rightarrow> nat \<Rightarrow> bool" where
  "unicode_ignorecase_eq = undefined"

definition unicode_isalnum :: "nat \<Rightarrow> bool" where
  "unicode_isalnum = undefined"

definition unicode_isdecimal :: "nat \<Rightarrow> bool" where
  "unicode_isdecimal = undefined"

definition is_ascii :: "nat \<Rightarrow> bool" where
  "is_ascii c = (c < 128)"

definition ascii_isupper :: "nat \<Rightarrow> bool" where
  "ascii_isupper c = (65 \<le> c \<and> c \<le> 90)"

definition ascii_islower :: "nat \<Rightarrow> bool" where
  "ascii_islower c = (97 \<le> c \<and> c \<le> 122)"

definition ascii_isdigit :: "nat \<Rightarrow> bool" where
  "ascii_isdigit c = (48 \<le> c \<and> c \<le> 57)"

definition ascii_lower :: "nat \<Rightarrow> nat" where
  "ascii_lower c = (if ascii_isupper c then c + 32 else c)"

text \<open>\<^verbatim>\<open>str.isspace\<close> on one code point: the white space of Unicode, as CPython lists it.\<close>

definition isspace :: "nat \<Rightarrow> bool" where
  "isspace c = ((9 \<le> c \<and> c \<le> 13) \<or> (28 \<le> c \<and> c \<le> 32) \<or> c = 133 \<or> c = 160
     \<or> c = 5760 \<or> (8192 \<le> c \<and> c \<le> 8202) \<or> c = 8232 \<or> c = 8233 \<or> c = 8239
     \<or> c = 8287 \<or> c = 12288)"

text \<open>\<^verbatim>\<open>str.lower()\<close>\<close>

definition lower :: "str \<Rightarrow> str" where
  "lower s = (if list_all is_ascii s then map ascii_lower s else unicode_lower s)"

text \<open>\<^verbatim>\<open>str.strip()\<close>: white space is removed at both ends.\<close>

definition strip :: "str \<Rightarrow> str" where
  "strip s = rev (dropWhile isspace (rev (dropWhile isspace s)))"

text \<open>
  \<^verbatim>\<open>str.split()\<close> without a separator: the maximal runs of characters that are not white
  space, in order. \<open>cur\<close> is the word being read.
\<close>

fun split_from :: "str \<Rightarrow> str \<Rightarrow> str list" where
  "split_from cur [] = (if cur = [] then [] else [cur])"
| "split_from cur (c # cs) =
     (if isspace c then (if cur = [] then split_from [] cs else cur # split_from [] cs)
      else split_from (cur @ [c]) cs)"

definition split :: "str \<Rightarrow> str list" where
  "split s = split_from [] s"

text \<open>\<^verbatim>\<open>sep.join(words)\<close>\<close>

fun join :: "str \<Rightarrow> str list \<Rightarrow> str" where
  "join sep [] = []"
| "join sep [w] = w"
| "join sep (w # v # ws) = w @ sep @ join sep (v # ws)"

text \<open>\<^verbatim>\<open>d.get(key, default)\<close> on a dictionary given as its list of items.\<close>

definition dict_get :: "('k \<times> 'v) list \<Rightarrow> 'k \<Rightarrow> 'v \<Rightarrow> 'v" where
  "dict_get d k dflt = (case map_of d k of None \<Rightarrow> dflt | Some v \<Rightarrow> v)"

section \<open>Regular expressions\<close>

text \<open>
  The compiled form of the patterns of the repository. A literal of a pattern compiled
  with \<^verbatim>\<open>re.IGNORECASE\<close> is \<open>LitIC\<close> when it is a letter and \<open>Lit\<close> otherwise, as the
  compiler of \<^verbatim>\<open>re\<close> emits it. \<open>Dot\<close> is \<^verbatim>\<open>.\<close> without \<^verbatim>\<open>re.DOTALL\<close>: any character but
  the newline. \<open>Word\<close> is \<^verbatim>\<open>\w\<close>, \<open>Digit\<close> is \<^verbatim>\<open>\d\<close>, \<open>Class\<close> a bracketed set of single
  characters and ranges.
\<close>

datatype citem = CChar nat | CRange nat nat

datatype atom = Lit nat | LitIC nat | Dot | Word | Digit | Class "citem list"

datatype regex =
    Eps
  | Atom atom
  | Cat regex regex
  | Alt regex regex
  | Star regex
  | Grp nat regex

text \<open>\<^verbatim>\<open>r+\<close> and \<^verbatim>\<open>r?\<close>, both greedy.\<close>

definition Plus :: "regex \<Rightarrow> regex" where
  "Plus r = Cat r (Star r)"

definition Opt :: "regex \<Rightarrow> regex" where
  "Opt r = Alt r Eps"

fun seq :: "regex list \<Rightarrow> regex" where
  "seq [] = Eps"
| "seq [r] = r"
| "seq (r # q # rs) = Cat r (seq (q # rs))"

definition lit :: "string \<Rightarrow> regex" where
  "lit cs = seq (map (\<lambda>c. Atom (Lit c)) (ustr cs))"

definition lit_ignorecase :: "string \<Rightarrow> regex" where
  "lit_ignorecase cs =
     seq (map (\<lambda>c. Atom (if ascii_isupper c \<or> ascii_islower c then LitIC (ascii_lower c) else Lit c))
       (ustr cs))"

fun citem_ok :: "citem \<Rightarrow> nat \<Rightarrow> bool" where
  "citem_ok (CChar a) c = (c = a)"
| "citem_ok (CRange lo hi) c = (lo \<le> c \<and> c \<le> hi)"

fun atom_ok :: "atom \<Rightarrow> nat \<Rightarrow> bool" where
  "atom_ok (Lit a) c = (c = a)"
| "atom_ok (LitIC a) c = (if is_ascii c then ascii_lower c = a else unicode_ignorecase_eq a c)"
| "atom_ok Dot c = (c \<noteq> 10)"
| "atom_ok Word c =
     (if is_ascii c then ascii_isupper c \<or> ascii_islower c \<or> ascii_isdigit c \<or> c = 95
      else unicode_isalnum c)"
| "atom_ok Digit c = (if is_ascii c then ascii_isdigit c else unicode_isdecimal c)"
| "atom_ok (Class items) c = list_ex (\<lambda>i. citem_ok i c) items"

text \<open>
  The matcher is the backtracking matcher of \<^verbatim>\<open>re\<close> written as a list of successes: from
  a state (the input still to read, the groups captured so far, latest first) it gives
  every way the expression can match a prefix of the input, in the order in which the
  backtracking engine tries them (left alternative first, one more repetition before
  stopping). A repetition goes on only after an iteration that read a character, so the
  length of the input bounds the number of iterations.
\<close>

type_synonym captures = "(nat \<times> str) list"
type_synonym mstate = "str \<times> captures"

fun star_iter :: "nat \<Rightarrow> (mstate \<Rightarrow> mstate list) \<Rightarrow> mstate \<Rightarrow> mstate list" where
  "star_iter 0 f st = [st]"
| "star_iter (Suc k) f st =
     concat (map (\<lambda>st'. if length (fst st') < length (fst st) then star_iter k f st' else [])
       (f st)) @ [st]"

primrec rmatch :: "regex \<Rightarrow> mstate \<Rightarrow> mstate list" where
  "rmatch Eps = (\<lambda>st. [st])"
| "rmatch (Atom a) = (\<lambda>st.
     case fst st of [] \<Rightarrow> [] | c # cs \<Rightarrow> if atom_ok a c then [(cs, snd st)] else [])"
| "rmatch (Cat r q) = (\<lambda>st. concat (map (rmatch q) (rmatch r st)))"
| "rmatch (Alt r q) = (\<lambda>st. rmatch r st @ rmatch q st)"
| "rmatch (Star r) = (\<lambda>st. star_iter (length (fst st)) (rmatch r) st)"
| "rmatch (Grp n r) = (\<lambda>st.
     map (\<lambda>st'. (fst st', (n, take (length (fst st) - length (fst st')) (fst st)) # snd st'))
       (rmatch r st))"

text \<open>
  \<^verbatim>\<open>pattern.fullmatch(s)\<close>: the first way of matching, in the order of the engine, that
  reads the whole of \<open>s\<close>; the match object is modelled by its groups.
  \<^verbatim>\<open>match.group(n)\<close> is \<^verbatim>\<open>None\<close> for a group that took no part in the match.
\<close>

definition fullmatch :: "regex \<Rightarrow> str \<Rightarrow> captures option" where
  "fullmatch r s = map_option snd (find (\<lambda>st. fst st = []) (rmatch r (s, [])))"

definition group :: "captures \<Rightarrow> nat \<Rightarrow> str option" where
  "group m n = map_of m n"

section \<open>The ELIZA responder (patternmatching.py)\<close>

definition reflections :: "(str \<times> str) list" where
  "reflections =
    [(ustr ''am'', ustr ''are''), (ustr ''was'', ustr ''were''), (ustr ''i'', ustr ''you''),
     (ustr ''i'd'', ustr ''you would''), (ustr ''i'll'', ustr ''you will''),
     (ustr ''i've'', ustr ''you have''), (ustr ''i'm'', ustr ''you are''),
     (ustr ''my'', ustr ''your''), (ustr ''are'', ustr ''am''), (ustr ''were'', ustr ''was''),
     (ustr ''you've'', ustr ''I have''), (ustr ''you'll'', ustr ''I will''),
     (ustr ''you'd'', ustr ''I would''), (ustr ''your'', ustr ''my''),
     (ustr ''yours'', ustr ''mine''), (ustr ''you'', ustr ''I''), (ustr ''me'', ustr ''you'')]"

definition reflect :: "str \<Rightarrow> str" where
  "reflect fragment =
     (let tokens = split (lower fragment)
      in join (ustr '' '') (map (\<lambda>token. dict_get reflections token token) tokens))"

datatype exc = ReError str | OtherError str

datatype py_error = ValueError str "exc option" | AttributeError | Propagated exc

text \<open>
  A response function formats its reply around \<^verbatim>\<open>reflect(match.group(1))\<close>; were group 1
  \<^verbatim>\<open>None\<close>, \<^verbatim>\<open>reflect\<close> would raise \<^verbatim>\<open>AttributeError\<close> on \<^verbatim>\<open>None.lower()\<close>.
\<close>

definition respond_with :: "string \<Rightarrow> string \<Rightarrow> captures \<Rightarrow> py_error + str" where
  "respond_with pre post m =
     (case group m 1 of
        None \<Rightarrow> Inl AttributeError
      | Some g \<Rightarrow> Inr (ustr pre @ reflect g @ ustr post))"

definition any_capture :: regex where
  "any_capture = Grp 1 (Plus (Atom Dot))"

definition patterns :: "(regex \<times> (captures \<Rightarrow> py_error + str)) list" where
  "patterns =
    [(seq [lit_ignorecase ''I need '', any_capture],
      respond_with ''Why do you need '' ''?''),
     (seq [lit_ignorecase ''Why don't you '', any_capture, Opt (Atom (Lit 63))],
      respond_with ''Do you really think I don't '' ''?''),
     (seq [lit_ignorecase ''Why can't I '', any_capture, Opt (Atom (Lit 63))],
      respond_with ''Maybe you could '' '' if you tried.''),
     (seq [lit_ignorecase ''I can't '', any_capture],
      respond_with ''What makes you think you can't '' ''?''),
     (seq [lit_ignorecase ''I am '', any_capture],
      respond_with ''How long have you been '' ''?''),
     (seq [lit_ignorecase ''I'm '', any_capture],
      respond_with ''Why are you '' ''?''),
     (seq [lit_ignorecase ''I feel '', any_capture],
      respond_with ''Tell me more about feeling '' ''.''),
     (Grp 1 (Star (Atom Dot)),
      (\<lambda>m. Inr (ustr ''Please tell me more.'')))]"

text \<open>The loop over the rule table: the first rule whose pattern matches all of \<open>s\<close>.\<close>

fun first_response ::
  "(regex \<times> (captures \<Rightarrow> py_error + str)) list \<Rightarrow> str \<Rightarrow> (py_error + str) option" where
  "first_response [] s = None"
| "first_response ((pattern, response_function) # rules) s =
     (case fullmatch pattern s of
        Some m \<Rightarrow> Some (response_function m)
      | None \<Rightarrow> first_response rules s)"

definition fallback :: str where
  "fallback = ustr ''I'm not sure I understand. Can you elaborate?''"

definition get_eliza_response :: "str \<Rightarrow> py_error + str" where
  "get_eliza_response user_input =
     (case first_response patterns (strip user_input) of
        Some r \<Rightarrow> r
      | None \<Rightarrow> Inr fallback)"

section \<open>Finding all matches\<close>

text \<open>
  \<^verbatim>\<open>pattern.groups\<close>: Python numbers the capturing groups from 1 in the order of their
  opening brackets, so their number is the greatest index.
\<close>

primrec max_group :: "regex \<Rightarrow> nat" where
  "max_group Eps = 0"
| "max_group (Atom a) = 0"
| "max_group (Cat r q) = max (max_group r) (max_group q)"
| "max_group (Alt r q) = max (max_group r) (max_group q)"
| "max_group (Star r) = max_group r"
| "max_group (Grp n r) = max n (max_group r)"

text \<open>
  One attempt of the scan at the head of \<open>s\<close>: the first way of matching in the order of
  the engine. After an empty match the next attempt at the same place has to read a
  character (\<open>must_advance\<close>).
\<close>

definition match_here :: "regex \<Rightarrow> bool \<Rightarrow> str \<Rightarrow> mstate option" where
  "match_here r must_advance s =
     find (\<lambda>st. if must_advance then length (fst st) < length s else True) (rmatch r (s, []))"

text \<open>
  The scan of \<^verbatim>\<open>pattern.finditer\<close>: the matches from left to right, without overlap, each
  as the text it matched and its groups. Where nothing matches, the scan moves on by one
  character.
\<close>

function finditer_from :: "regex \<Rightarrow> bool \<Rightarrow> str \<Rightarrow> (str \<times> captures) list" where
  "finditer_from r must_advance s =
     (case match_here r must_advance s of
        None \<Rightarrow> (case s of [] \<Rightarrow> [] | c # cs \<Rightarrow> finditer_from r False cs)
      | Some st \<Rightarrow>
          (if length (fst st) < length s
           then (take (length s - length (fst st)) s, snd st) # finditer_from r False (fst st)
           else if must_advance then []
           else ([], snd st) # finditer_from r True s))"
  by pat_completeness auto
termination
  by (relation "measure (\<lambda>(r, must_advance, s). 2 * length s + (if must_advance then 0 else 1))")
     auto

definition finditer :: "regex \<Rightarrow> str \<Rightarrow> (str \<times> captures) list" where
  "finditer r s = finditer_from r False s"

text \<open>
  \<^verbatim>\<open>pattern.findall\<close> gives for each match: the matched text when the pattern has no
  group, the text of the group when it has one, and the tuple of the texts of all its
  groups when it has several; a group that took no part in the match gives the empty
  string.
\<close>

datatype item = Str str | Tup "str list"

definition group_text :: "captures \<Rightarrow> nat \<Rightarrow> str" where
  "group_text m n = (case group m n of None \<Rightarrow> [] | Some g \<Rightarrow> g)"

definition findall_item :: "nat \<Rightarrow> str \<times> captures \<Rightarrow> item" where
  "findall_item n m =
     (if n = 0 then Str (fst m)
      else if n = 1 then Str (group_text (snd m) 1)
      else Tup (map (group_text (snd m)) [1..<Suc n]))"

definition findall :: "regex \<Rightarrow> str \<Rightarrow> item list" where
  "findall r s = map (findall_item (max_group r)) (finditer r s)"

text \<open>The texts matched by the successive matches (\<^verbatim>\<open>m.group(0)\<close> for each match).\<close>

definition matched_substrings :: "regex \<Rightarrow> str \<Rightarrow> str list" where
  "matched_substrings r s = map fst (finditer r s)"

section \<open>The tokenizer and the analysis pipeline (nltktokenization.py)\<close>

text \<open>
  The verbose pattern of \<^verbatim>\<open>tokenize_text\<close>, alternative by alternative; its three
  bracketed parts are capturing groups 1, 2 and 3. The bracketed set of the last
  alternative holds the range from \<^verbatim>\<open>:\<close> to \<^verbatim>\<open>_\<close> and the three code points U+00E2,
  U+20AC, U+02DC of the source text.
\<close>

definition tokenizer_pattern :: regex where
  "tokenizer_pattern =
     Alt (Plus (Grp 1 (Cat (Atom (Class [CRange 65 90])) (Atom (Lit 46)))))
    (Alt (Cat (Plus (Atom Word)) (Star (Grp 2 (Cat (Atom (Lit 45)) (Plus (Atom Word))))))
    (Alt (seq [Opt (Atom (Lit 36)), Plus (Atom Digit),
               Opt (Grp 3 (Cat (Atom (Lit 46)) (Plus (Atom Digit)))), Opt (Atom (Lit 37))])
    (Alt (lit ''...'')
         (Atom (Class [CChar 93, CChar 91, CChar 46, CChar 44, CChar 59, CChar 34, CChar 39,
                       CChar 63, CChar 40, CChar 41, CRange 58 95,
                       CChar 226, CChar 8364, CChar 732])))))"

text \<open>
  \<^verbatim>\<open>nltk.tokenize.regexp_tokenize(text, pattern)\<close> with its default \<^verbatim>\<open>gaps=False\<close> compiles
  the pattern and returns \<^verbatim>\<open>findall\<close> of it on the text.
\<close>

definition regexp_tokenize :: "str \<Rightarrow> regex \<Rightarrow> item list" where
  "regexp_tokenize text pattern = findall pattern text"

definition tokenize_text :: "str \<Rightarrow> item list" where
  "tokenize_text text = regexp_tokenize text tokenizer_pattern"

definition compute_vocabulary :: "item list \<Rightarrow> nat \<times> item set" where
  "compute_vocabulary tokens = (let vocabulary_set = set tokens in (card vocabulary_set, vocabulary_set))"

text \<open>
  Floating point numbers are outside the embedding. The pipeline calls
  \<^verbatim>\<open>heaps_law_estimation(num_tokens)\<close> with the default \<^verbatim>\<open>beta = 0.7\<close> and \<^verbatim>\<open>k = 10.0\<close>;
  the double it returns is kept as an unspecified value of an unspecified type. With a
  count that is not negative and a positive exponent, \<^verbatim>\<open>k * (num_tokens ** beta)\<close> raises
  nothing.
\<close>

typedecl pyfloat

definition heaps_law_estimation_default :: "nat \<Rightarrow> pyfloat" where
  "heaps_law_estimation_default num_tokens = undefined num_tokens"

text \<open>
  What \<^verbatim>\<open>text_analysis_pipeline\<close> prints, line by line, and the exception it ends with,
  if any. The guard is the first statement.
\<close>

datatype printed =
    NumberOfTokens nat
  | VocabularySize nat
  | VocabularySet "item set"
  | EstimatedVocabularySize pyfloat

definition text_analysis_pipeline :: "str \<Rightarrow> printed list \<times> py_error option" where
  "text_analysis_pipeline text =
     (if text = [] then ([], Some (ValueError (ustr ''Text input cannot be empty.'') None))
      else
        (let tokens = tokenize_text text;
             num_tokens = length tokens;
             (vocab_size, vocabulary) = compute_vocabulary tokens;
             estimated_vocab_size = heaps_law_estimation_default num_tokens
         in ([NumberOfTokens num_tokens, VocabularySize vocab_size, VocabularySet vocabulary,
              EstimatedVocabularySize estimated_vocab_size], None)))"

section \<open>The generic helper (regularexpressions1.py)\<close>

text \<open>
  \<^verbatim>\<open>re.compile\<close> reads the syntax of a pattern; that parser is part of Python, not of the
  repository, and is a parameter here: it gives the compiled pattern or the exception it
  raised. \<^verbatim>\<open>except re.error\<close> catches \<open>ReError\<close> alone. \<^verbatim>\<open>re_findall\<close> is the
  \<^verbatim>\<open>findall\<close> method of the compiled pattern.
\<close>

definition find_all_matches ::
  "(str \<Rightarrow> exc + 'p) \<Rightarrow> ('p \<Rightarrow> str \<Rightarrow> 'r) \<Rightarrow> str \<Rightarrow> str \<Rightarrow> py_error + 'r" where
  "find_all_matches re_compile re_findall pattern text =
     (case re_compile pattern of
        Inr compiled_pattern \<Rightarrow> Inr (re_findall compiled_pattern text)
      | Inl (ReError regex_error) \<Rightarrow>
          Inl (ValueError (ustr ''Invalid regex pattern: '' @ pattern) (Some (ReError regex_error)))
      | Inl (OtherError e) \<Rightarrow> Inl (Propagated (OtherError e)))"

text \<open>
  The pattern \<^verbatim>\<open>(cat|dog)s?\<close> of \<^verbatim>\<open>demonstrate_complex_disjunction\<close> in compiled form, and
  the text of its example.
\<close>

definition cat_dog_pattern :: regex where
  "cat_dog_pattern = Cat (Grp 1 (Alt (lit ''cat'') (lit ''dog''))) (Opt (Atom (Lit 115)))"

definition plural_text :: str where
  "plural_text = ustr ''Cats and dogs are common pets. I have one cat and two dogs.''"

definition example_text :: str where
  "example_text = ustr ''That U.S.A. poster-print costs $12.40...''"

section \<open>Auxiliary notions for the proofs\<close>

text \<open>
  \<open>always_captures n r\<close>: every match of \<open>r\<close> sets group \<open>n\<close>.
  \<open>rejects_newline r\<close>: no atom of \<open>r\<close> accepts the newline character.
\<close>

primrec always_captures :: "nat \<Rightarrow> regex \<Rightarrow> bool" where
  "always_captures n Eps = False"
| "always_captures n (Atom a) = False"
| "always_captures n (Cat r q) = (always_captures n r \<or> always_captures n q)"
| "always_captures n (Alt r q) = (always_captures n r \<and> always_captures n q)"
| "always_captures n (Star r) = False"
| "always_captures n (Grp m r) = (m = n \<or> always_captures n r)"

primrec rejects_newline :: "regex \<Rightarrow> bool" where
  "rejects_newline Eps = True"
| "rejects_newline (Atom a) = (\<not> atom_ok a 10)"
| "rejects_newline (Cat r q) = (rejects_newline r \<and> rejects_newline q)"
| "rejects_newline (Alt r q) = (rejects_newline r \<and> rejects_newline q)"
| "rejects_newline (Star r) = rejects_newline r"
| "rejects_newline (Grp m r) = rejects_newline r"


text \<open>
  The description of \<^verbatim>\<open>reflect\<close> in words: a word that is a key of the reflection map is
  replaced by the value of that key, any other word stays; the words are those of the
  lowercased fragment, in order, and they are joined by single spaces.
\<close>

definition reflect_word :: "str \<Rightarrow> str" where
  "reflect_word w = (if w \<in> fst ` set reflections then the (map_of reflections w) else w)"

definition reflect_spec :: "str \<Rightarrow> str" where
  "reflect_spec fragment = join (ustr '' '') (map reflect_word (split (lower fragment)))"

section \<open>Evaluation\<close>

text \<open>The defining equations by which the simplifier runs the model on a given input.\<close>

lemmas str_defs = ustr_def is_ascii_def ascii_isupper_def ascii_islower_def ascii_isdigit_def
  ascii_lower_def isspace_def lower_def strip_def split_def dict_get_def

lemmas re_defs = Plus_def Opt_def lit_def lit_ignorecase_def fullmatch_def group_def

lemmas eliza_defs = reflections_def reflect_def respond_with_def any_capture_def patterns_def
  fallback_def get_eliza_response_def

lemmas findall_defs = match_here_def finditer_def group_text_def findall_item_def findall_def
  matched_substrings_def upt_rec

lemmas tokenizer_defs = tokenizer_pattern_def regexp_tokenize_def tokenize_text_def
  compute_vocabulary_def text_analysis_pipeline_def cat_dog_pattern_def plural_text_def
  example_text_def

section \<open>Properties of the matcher\<close>

subsection \<open>The bound on the iterations of a repetition is no restriction\<close>

lemma star_iter_no_input: "fst st = [] \<Longrightarrow> star_iter k f st = [st]"
  by (cases k) simp_all

lemma star_iter_enough:
  "length (fst st) \<le> k \<Longrightarrow> star_iter k f st = star_iter (length (fst st)) f st"
proof (induction k arbitrary: st rule: less_induct)
  case (less k)
  show ?case
  proof (cases "fst st")
    case Nil
    then show ?thesis by (simp add: star_iter_no_input)
  next
    case (Cons c cs)
    with less.prems obtain j where k: "k = Suc j" and j: "length cs \<le> j"
      by (cases k) auto
    have inner: "(if length (fst st') < Suc (length cs) then star_iter j f st' else []) =
                 (if length (fst st') < Suc (length cs) then star_iter (length cs) f st' else [])"
      for st'
    proof (cases "length (fst st') < Suc (length cs)")
      case True
      then have short: "length (fst st') \<le> length cs" by simp
      have "star_iter j f st' = star_iter (length (fst st')) f st'"
        using less.IH[of j st'] short j k by simp
      moreover have "star_iter (length cs) f st' = star_iter (length (fst st')) f st'"
        using less.IH[of "length cs" st'] short j k by simp
      ultimately show ?thesis by simp
    next
      case False
      then show ?thesis by simp
    qed
    show ?thesis
      by (simp add: k Cons inner)
  qed
qed

subsection \<open>What a match leaves and what it captures\<close>

lemma star_iter_invariant:
  assumes step: "\<And>st st'. P st \<Longrightarrow> st' \<in> set (f st) \<Longrightarrow> P st'"
  shows "P st \<Longrightarrow> st' \<in> set (star_iter k f st) \<Longrightarrow> P st'"
proof (induction k arbitrary: st)
  case 0
  then show ?case by simp
next
  case (Suc k)
  from Suc.prems(2) consider "st' = st"
    | mid where "mid \<in> set (f st)" "st' \<in> set (star_iter k f mid)"
    by (auto split: if_splits)
  then show ?case
  proof cases
    case 1
    with Suc.prems(1) show ?thesis by simp
  next
    case 2
    from step[OF Suc.prems(1) 2(1)] 2(2) show ?thesis by (rule Suc.IH)
  qed
qed

lemma find_Some_set: "find P xs = Some x \<Longrightarrow> x \<in> set xs \<and> P x"
  by (induction xs) (auto split: if_splits)

text \<open>Captures are only ever added in front of the captures of the state matched from.\<close>

lemma rmatch_captures_grow:
  "st' \<in> set (rmatch r st) \<Longrightarrow> \<exists>new. snd st' = new @ snd st"
proof (induction r arbitrary: st st')
  case Eps
  then show ?case by simp
next
  case (Atom a)
  then show ?case by (cases "fst st") (auto split: if_splits)
next
  case (Cat r q)
  from Cat.prems obtain mid where mid: "mid \<in> set (rmatch r st)" "st' \<in> set (rmatch q mid)"
    by auto
  from Cat.IH(1)[OF mid(1)] obtain new1 where "snd mid = new1 @ snd st" ..
  moreover from Cat.IH(2)[OF mid(2)] obtain new2 where "snd st' = new2 @ snd mid" ..
  ultimately have "snd st' = (new2 @ new1) @ snd st" by simp
  then show ?case ..
next
  case (Alt r q)
  from Alt.prems have "st' \<in> set (rmatch r st) \<or> st' \<in> set (rmatch q st)" by simp
  then show ?case using Alt.IH by blast
next
  case (Star r)
  have "\<exists>new. snd st' = new @ snd st"
  proof (rule star_iter_invariant[where P = "\<lambda>x. \<exists>new. snd x = new @ snd st" and f = "rmatch r"])
    fix a b assume a: "\<exists>new. snd a = new @ snd st" and b: "b \<in> set (rmatch r a)"
    from a obtain new1 where "snd a = new1 @ snd st" ..
    moreover from Star.IH[OF b] obtain new2 where "snd b = new2 @ snd a" ..
    ultimately have "snd b = (new2 @ new1) @ snd st" by simp
    then show "\<exists>new. snd b = new @ snd st" ..
  next
    show "\<exists>new. snd st = new @ snd st" by simp
  next
    from Star.prems show "st' \<in> set (star_iter (length (fst st)) (rmatch r) st)" by simp
  qed
  then show ?case .
next
  case (Grp n r)
  from Grp.prems obtain mid where mid: "mid \<in> set (rmatch r st)"
    and st': "snd st' = (n, take (length (fst st) - length (fst mid)) (fst st)) # snd mid"
    by auto
  from Grp.IH[OF mid] obtain new where "snd mid = new @ snd st" ..
  with st' have "snd st' = ((n, take (length (fst st) - length (fst mid)) (fst st)) # new) @ snd st"
    by simp
  then show ?case ..
qed

lemma rmatch_always_captures:
  "always_captures n r \<Longrightarrow> st' \<in> set (rmatch r st) \<Longrightarrow> n \<in> fst ` set (snd st')"
proof (induction r arbitrary: st st')
  case (Cat r q)
  from Cat.prems(2) obtain mid where mid: "mid \<in> set (rmatch r st)" "st' \<in> set (rmatch q mid)"
    by auto
  from Cat.prems(1) have "always_captures n r \<or> always_captures n q" by simp
  then show ?case
  proof
    assume "always_captures n r"
    then have "n \<in> fst ` set (snd mid)" using mid(1) by (rule Cat.IH(1))
    moreover from rmatch_captures_grow[OF mid(2)] obtain new where "snd st' = new @ snd mid" ..
    ultimately show ?thesis by auto
  next
    assume "always_captures n q"
    then show ?thesis using mid(2) by (rule Cat.IH(2))
  qed
next
  case (Alt r q)
  from Alt.prems have "st' \<in> set (rmatch r st) \<or> st' \<in> set (rmatch q st)"
    and "always_captures n r" and "always_captures n q" by simp_all
  then show ?case using Alt.IH by blast
next
  case (Grp m r)
  from Grp.prems(2) obtain mid where mid: "mid \<in> set (rmatch r st)"
    and st': "snd st' = (m, take (length (fst st) - length (fst mid)) (fst st)) # snd mid"
    by auto
  from Grp.prems(1) have "m = n \<or> always_captures n r" by simp
  then show ?case
  proof
    assume "m = n"
    with st' show ?thesis by simp
  next
    assume "always_captures n r"
    then have "n \<in> fst ` set (snd mid)" using mid by (rule Grp.IH)
    with st' show ?thesis by simp
  qed
qed simp_all

lemma fullmatch_group:
  assumes "always_captures n r" and "fullmatch r s = Some m"
  shows "\<exists>g. group m n = Some g"
proof -
  from assms(2) obtain st where "st \<in> set (rmatch r (s, []))" and m: "m = snd st"
    by (auto simp: fullmatch_def dest: find_Some_set)
  with assms(1) have "n \<in> fst ` set m" by (auto dest: rmatch_always_captures)
  then show ?thesis
    by (cases "map_of m n") (auto simp: group_def map_of_eq_None_iff)
qed

text \<open>An expression none of whose atoms accepts the newline reads no newline.\<close>

lemma rmatch_rejects_newline:
  "rejects_newline r \<Longrightarrow> st' \<in> set (rmatch r st) \<Longrightarrow>
     \<exists>p. fst st = p @ fst st' \<and> 10 \<notin> set p"
proof (induction r arbitrary: st st')
  case Eps
  then show ?case by simp
next
  case (Atom a)
  then show ?case by (cases "fst st") (auto split: if_splits)
next
  case (Cat r q)
  from Cat.prems(2) obtain mid where mid: "mid \<in> set (rmatch r st)" "st' \<in> set (rmatch q mid)"
    by auto
  from Cat.prems(1) have rq: "rejects_newline r" "rejects_newline q" by simp_all
  from Cat.IH(1)[OF rq(1) mid(1)] obtain p1 where p1: "fst st = p1 @ fst mid" "10 \<notin> set p1"
    by blast
  from Cat.IH(2)[OF rq(2) mid(2)] obtain p2 where p2: "fst mid = p2 @ fst st'" "10 \<notin> set p2"
    by blast
  from p1 p2 have "fst st = (p1 @ p2) @ fst st' \<and> 10 \<notin> set (p1 @ p2)" by simp
  then show ?case by blast
next
  case (Alt r q)
  from Alt.prems have "st' \<in> set (rmatch r st) \<or> st' \<in> set (rmatch q st)"
    and "rejects_newline r" and "rejects_newline q" by simp_all
  then show ?case using Alt.IH by blast
next
  case (Star r)
  from Star.prems(1) have r: "rejects_newline r" by simp
  have "\<exists>p. fst st = p @ fst st' \<and> 10 \<notin> set p"
  proof (rule star_iter_invariant[where P = "\<lambda>x. \<exists>p. fst st = p @ fst x \<and> 10 \<notin> set p"
        and f = "rmatch r"])
    fix a b assume a: "\<exists>p. fst st = p @ fst a \<and> 10 \<notin> set p" and b: "b \<in> set (rmatch r a)"
    from a obtain p1 where p1: "fst st = p1 @ fst a" "10 \<notin> set p1" by blast
    from Star.IH[OF r b] obtain p2 where p2: "fst a = p2 @ fst b" "10 \<notin> set p2" by blast
    from p1 p2 have "fst st = (p1 @ p2) @ fst b \<and> 10 \<notin> set (p1 @ p2)" by simp
    then show "\<exists>p. fst st = p @ fst b \<and> 10 \<notin> set p" by blast
  next
    show "\<exists>p. fst st = p @ fst st \<and> 10 \<notin> set p" by simp
  next
    from Star.prems show "st' \<in> set (star_iter (length (fst st)) (rmatch r) st)" by simp
  qed
  then show ?case .
next
  case (Grp n r)
  from Grp.prems obtain mid where mid: "mid \<in> set (rmatch r st)" and st': "fst st' = fst mid"
    and r: "rejects_newline r"
    by auto
  from Grp.IH[OF r mid] st' show ?case by simp
qed

lemma fullmatch_newline:
  assumes "rejects_newline r" and "10 \<in> set s"
  shows "fullmatch r s = None"
proof (rule ccontr)
  assume "fullmatch r s \<noteq> None"
  then obtain st where "st \<in> set (rmatch r (s, []))" "fst st = []"
    by (auto simp: fullmatch_def dest: find_Some_set)
  with rmatch_rejects_newline[OF assms(1), of st "(s, [])"] have "10 \<notin> set s" by auto
  with assms(2) show False by simp
qed

subsection \<open>The greedy capture of a line\<close>

lemma star_dot_first:
  "10 \<notin> set t \<Longrightarrow> length t \<le> k \<Longrightarrow>
     \<exists>others. star_iter k (rmatch (Atom Dot)) (t, caps) = ([], caps) # others"
proof (induction t arbitrary: k)
  case Nil
  then show ?case by (simp add: star_iter_no_input)
next
  case (Cons c t)
  from Cons.prems obtain j where k: "k = Suc j" and j: "length t \<le> j"
    by (cases k) auto
  from Cons.prems have "10 \<notin> set t" and c: "c \<noteq> 10" by auto
  with j Cons.IH obtain others where "star_iter j (rmatch (Atom Dot)) (t, caps) = ([], caps) # others"
    by blast
  with c show ?case by (simp add: k)
qed

lemma catch_all_first:
  assumes "10 \<notin> set t"
  shows "\<exists>others. rmatch (Grp 1 (Star (Atom Dot))) (t, caps) = ([], (1, t) # caps) # others"
proof -
  from star_dot_first[OF assms order_refl] obtain others
    where "star_iter (length t) (rmatch (Atom Dot)) (t, caps) = ([], caps) # others" ..
  then show ?thesis by simp
qed

lemma any_capture_first:
  assumes "10 \<notin> set t" and "t \<noteq> []"
  shows "\<exists>others. rmatch any_capture (t, caps) = ([], (1, t) # caps) # others"
proof -
  from assms obtain c cs where t: "t = c # cs" and c: "c \<noteq> 10" and cs: "10 \<notin> set cs"
    by (cases t) auto
  from star_dot_first[OF cs order_refl] obtain others
    where "star_iter (length cs) (rmatch (Atom Dot)) (cs, caps) = ([], caps) # others" ..
  with c show ?thesis by (simp add: any_capture_def Plus_def t)
qed

lemma fullmatch_catch_all:
  assumes "10 \<notin> set t"
  shows "fullmatch (Grp 1 (Star (Atom Dot))) t = Some [(1, t)]"
proof -
  from catch_all_first[OF assms] obtain others
    where "rmatch (Grp 1 (Star (Atom Dot))) (t, []) = ([], [(1, t)]) # others" ..
  then show ?thesis by (simp add: fullmatch_def)
qed

text \<open>A capture followed by the optional question mark: the capture takes it all.\<close>

lemma fullmatch_capture_then_optional:
  assumes first: "rmatch front (s, []) = [(t, [])]" and "10 \<notin> set t" and "t \<noteq> []"
  shows "fullmatch (seq [front, any_capture, Opt (Atom (Lit 63))]) s = Some [(1, t)]"
proof -
  from any_capture_first[OF assms(2,3)] obtain others
    where "rmatch any_capture (t, []) = ([], [(1, t)]) # others" ..
  with first show ?thesis by (simp add: fullmatch_def Opt_def)
qed

subsection \<open>The rule table\<close>

lemma first_response_Some:
  "first_response rules s = Some reply \<Longrightarrow>
     \<exists>p f m. (p, f) \<in> set rules \<and> fullmatch p s = Some m \<and> reply = f m"
proof (induction rules)
  case Nil
  then show ?case by simp
next
  case (Cons rule rules)
  obtain p f where rule: "rule = (p, f)" by (cases rule)
  show ?case
  proof (cases "fullmatch p s")
    case None
    with Cons.prems rule have "first_response rules s = Some reply" by simp
    from Cons.IH[OF this] show ?thesis by auto
  next
    case (Some m)
    with Cons.prems rule have "reply = f m" by simp
    with Some rule show ?thesis by auto
  qed
qed

lemma first_response_None:
  "(first_response rules s = None) = list_all (\<lambda>rule. fullmatch (fst rule) s = None) rules"
  by (induction rules) (auto split: option.splits)

lemma respond_with_reply:
  assumes "always_captures 1 p" and "fullmatch p s = Some m"
  shows "\<exists>g. respond_with pre post m = Inr (ustr pre @ reflect g @ ustr post)"
proof -
  from fullmatch_group[OF assms] obtain g where "group m 1 = Some g" ..
  then show ?thesis by (auto simp: respond_with_def)
qed

lemma patterns_reply:
  assumes "(p, f) \<in> set patterns" and "fullmatch p s = Some m"
  shows "\<exists>reply. f m = Inr reply \<and> reply \<noteq> [] \<and> hd reply \<noteq> 73"
proof -
  have reply: "\<exists>reply. respond_with pre post m = Inr reply \<and> reply \<noteq> [] \<and> hd reply \<noteq> 73"
    if "always_captures 1 p" and "ustr pre \<noteq> []" and "hd (ustr pre) \<noteq> 73"
    for pre post
  proof -
    from respond_with_reply[OF that(1) assms(2)] obtain g
      where "respond_with pre post m = Inr (ustr pre @ reflect g @ ustr post)" ..
    with that(2,3) show ?thesis by simp
  qed
  from assms(1) consider
      "p = seq [lit_ignorecase ''I need '', any_capture]"
        "f = respond_with ''Why do you need '' ''?''"
    | "p = seq [lit_ignorecase ''Why don't you '', any_capture, Opt (Atom (Lit 63))]"
        "f = respond_with ''Do you really think I don't '' ''?''"
    | "p = seq [lit_ignorecase ''Why can't I '', any_capture, Opt (Atom (Lit 63))]"
        "f = respond_with ''Maybe you could '' '' if you tried.''"
    | "p = seq [lit_ignorecase ''I can't '', any_capture]"
        "f = respond_with ''What makes you think you can't '' ''?''"
    | "p = seq [lit_ignorecase ''I am '', any_capture]"
        "f = respond_with ''How long have you been '' ''?''"
    | "p = seq [lit_ignorecase ''I'm '', any_capture]"
        "f = respond_with ''Why are you '' ''?''"
    | "p = seq [lit_ignorecase ''I feel '', any_capture]"
        "f = respond_with ''Tell me more about feeling '' ''.''"
    | "f = (\<lambda>m. Inr (ustr ''Please tell me more.''))"
    unfolding patterns_def by auto
  then show ?thesis
  proof cases
    case 1
    then have captured: "always_captures 1 p" by (simp add: any_capture_def)
    show ?thesis using reply[OF captured, of "''Why do you need ''" "''?''"] 1
      by (simp add: ustr_def)
  next
    case 2
    then have captured: "always_captures 1 p" by (simp add: any_capture_def)
    show ?thesis using reply[OF captured, of "''Do you really think I don't ''" "''?''"] 2
      by (simp add: ustr_def)
  next
    case 3
    then have captured: "always_captures 1 p" by (simp add: any_capture_def)
    show ?thesis using reply[OF captured, of "''Maybe you could ''" "'' if you tried.''"] 3
      by (simp add: ustr_def)
  next
    case 4
    then have captured: "always_captures 1 p" by (simp add: any_capture_def)
    show ?thesis using reply[OF captured, of "''What makes you think you can't ''" "''?''"] 4
      by (simp add: ustr_def)
  next
    case 5
    then have captured: "always_captures 1 p" by (simp add: any_capture_def)
    show ?thesis using reply[OF captured, of "''How long have you been ''" "''?''"] 5
      by (simp add: ustr_def)
  next
    case 6
    then have captured: "always_captures 1 p" by (simp add: any_capture_def)
    show ?thesis using reply[OF captured, of "''Why are you ''" "''?''"] 6
      by (simp add: ustr_def)
  next
    case 7
    then have captured: "always_captures 1 p" by (simp add: any_capture_def)
    show ?thesis using reply[OF captured, of "''Tell me more about feeling ''" "''.''"] 7
      by (simp add: ustr_def)
  next
    case 8
    then show ?thesis by (simp add: ustr_def)
  qed
qed

lemma patterns_reject_newline:
  "list_all (\<lambda>rule. rejects_newline (fst rule)) patterns"
  by (simp add: patterns_def any_capture_def str_defs re_defs)

lemma last_patterns: "fst (last patterns) = Grp 1 (Star (Atom Dot))"
  by (simp add: patterns_def)

lemma catch_all_in_patterns: "\<exists>f. (Grp 1 (Star (Atom Dot)), f) \<in> set patterns"
  by (auto simp: patterns_def)

lemma first_response_newline:
  "(first_response patterns s = None) = (10 \<in> set s)"
proof
  assume none: "first_response patterns s = None"
  show "10 \<in> set s"
  proof (rule ccontr)
    assume "10 \<notin> set s"
    then have "fullmatch (Grp 1 (Star (Atom Dot))) s = Some [(1, s)]"
      by (rule fullmatch_catch_all)
    moreover from catch_all_in_patterns obtain f where "(Grp 1 (Star (Atom Dot)), f) \<in> set patterns" ..
    ultimately show False using none
      by (auto simp: first_response_None list_all_iff)
  qed
next
  assume "10 \<in> set s"
  then have "fullmatch (fst rule) s = None" if "rule \<in> set patterns" for rule
    using that patterns_reject_newline by (auto simp: list_all_iff intro: fullmatch_newline)
  then show "first_response patterns s = None"
    by (simp add: first_response_None list_all_iff)
qed

lemma fallback_first: "fallback \<noteq> [] \<and> hd fallback = 73"
  by (simp add: fallback_def ustr_def)

lemma eliza_reply_cases:
  "(first_response patterns (strip user_input) = None \<and> get_eliza_response user_input = Inr fallback)
   \<or> (\<exists>reply. first_response patterns (strip user_input) = Some (Inr reply)
         \<and> get_eliza_response user_input = Inr reply \<and> reply \<noteq> [] \<and> hd reply \<noteq> 73)"
proof (cases "first_response patterns (strip user_input)")
  case None
  then show ?thesis by (simp add: get_eliza_response_def)
next
  case (Some r)
  from first_response_Some[OF Some] obtain p f m
    where "(p, f) \<in> set patterns" "fullmatch p (strip user_input) = Some m" "r = f m"
    by blast
  with patterns_reply[of p f "strip user_input" m] obtain reply
    where "r = Inr reply" "reply \<noteq> []" "hd reply \<noteq> 73" by auto
  with Some show ?thesis by (simp add: get_eliza_response_def)
qed

text \<open>
  C3, as amended: \<^verbatim>\<open>get_eliza_response\<close> is total. For every input it raises nothing
  and returns a string that is not empty. The catch-all rule, the last of the table,
  matches the whole trimmed input whenever that holds no newline character (for the other
  inputs the fixed fallback string is returned, see C9).
\<close>

theorem eliza_total:
  "(\<exists>reply. get_eliza_response user_input = Inr reply \<and> reply \<noteq> [])
   \<and> (10 \<notin> set (strip user_input) \<longrightarrow>
        fullmatch (fst (last patterns)) (strip user_input) = Some [(1, strip user_input)])"
proof
  from eliza_reply_cases[of user_input] fallback_first
  show "\<exists>reply. get_eliza_response user_input = Inr reply \<and> reply \<noteq> []" by auto
next
  show "10 \<notin> set (strip user_input) \<longrightarrow>
        fullmatch (fst (last patterns)) (strip user_input) = Some [(1, strip user_input)]"
    unfolding last_patterns using fullmatch_catch_all by blast
qed

text \<open>The theorem at the input \<^verbatim>\<open>"  hello there "\<close>.\<close>

theorem eliza_total_witness:
  "10 \<notin> set (strip (ustr ''  hello there ''))
   \<and> (\<exists>reply. get_eliza_response (ustr ''  hello there '') = Inr reply \<and> reply \<noteq> [])
   \<and> fullmatch (fst (last patterns)) (strip (ustr ''  hello there ''))
        = Some [(1, strip (ustr ''  hello there ''))]"
proof -
  have "10 \<notin> set (strip (ustr ''  hello there ''))"
    by (simp add: str_defs)
  with eliza_total[of "ustr ''  hello there ''"] show ?thesis by blast
qed

text \<open>
  C3 as it was stated says that the catch-all matches any trimmed input. It does not
  match \<^verbatim>\<open>"hello\nthere"\<close>: \<^verbatim>\<open>.\<close> reads no newline, and \<^verbatim>\<open>strip\<close> leaves an inner newline
  where it is.
\<close>

theorem catch_all_fails_on_inner_newline:
  "fullmatch (fst (last patterns)) (strip (ustr ''hello'' @ [10] @ ustr ''there'')) = None
   \<and> strip (ustr ''hello'' @ [10] @ ustr ''there'') = ustr ''hello'' @ [10] @ ustr ''there''"
  by (simp add: str_defs re_defs eliza_defs)

text \<open>
  C9, as amended: the return after the loop, with the fallback string, is reached exactly
  for the inputs whose trimmed form holds a newline character. For every other input the
  catch-all pattern \<^verbatim>\<open>(.*)\<close> matches the whole trimmed input, some rule fires and the loop
  returns before the fallback.
\<close>

theorem fallback_iff_newline:
  "(get_eliza_response user_input = Inr fallback) = (10 \<in> set (strip user_input))
   \<and> (first_response patterns (strip user_input) = None) = (10 \<in> set (strip user_input))
   \<and> (fullmatch (fst (last patterns)) (strip user_input) = None) = (10 \<in> set (strip user_input))"
proof (intro conjI)
  show none: "(first_response patterns (strip user_input) = None) = (10 \<in> set (strip user_input))"
    by (rule first_response_newline)
  from eliza_reply_cases[of user_input] fallback_first none
  show "(get_eliza_response user_input = Inr fallback) = (10 \<in> set (strip user_input))"
    by auto
  show "(fullmatch (fst (last patterns)) (strip user_input) = None) = (10 \<in> set (strip user_input))"
  proof (cases "10 \<in> set (strip user_input)")
    case True
    then have "fullmatch (Grp 1 (Star (Atom Dot))) (strip user_input) = None"
      by (intro fullmatch_newline) simp_all
    with True show ?thesis unfolding last_patterns by simp
  next
    case False
    from fullmatch_catch_all[OF this] False show ?thesis unfolding last_patterns by simp
  qed
qed

text \<open>The theorem at the input \<^verbatim>\<open>"I feel fine"\<close>.\<close>

theorem fallback_iff_newline_witness:
  "get_eliza_response (ustr ''I feel fine'') \<noteq> Inr fallback
   \<and> first_response patterns (strip (ustr ''I feel fine'')) \<noteq> None
   \<and> fullmatch (fst (last patterns)) (strip (ustr ''I feel fine'')) \<noteq> None
   \<and> 10 \<notin> set (strip (ustr ''I feel fine''))"
proof -
  have "10 \<notin> set (strip (ustr ''I feel fine''))"
    by (simp add: str_defs)
  with fallback_iff_newline[of "ustr ''I feel fine''"] show ?thesis by simp
qed

text \<open>
  C9 as it was stated says that the return after the loop is unreachable. On
  \<^verbatim>\<open>"I need\nhelp"\<close> no rule matches, the catch-all included, and the fallback string is
  returned.
\<close>

theorem fallback_is_reached:
  "get_eliza_response (ustr ''I need'' @ [10] @ ustr ''help'') = Inr fallback
   \<and> first_response patterns (strip (ustr ''I need'' @ [10] @ ustr ''help'')) = None
   \<and> fullmatch (Grp 1 (Star (Atom Dot))) (strip (ustr ''I need'' @ [10] @ ustr ''help'')) = None"
  by (simp add: str_defs re_defs eliza_defs)

lemma strip_no_space_at_ends:
  assumes "\<not> isspace c" and "\<not> isspace d"
  shows "strip (c # s @ [d]) = c # s @ [d]"
  using assms by (simp add: strip_def)

lemma why_dont_you_front:
  "rmatch (lit_ignorecase ''Why don't you '') (ustr ''Why don't you '' @ t, []) = [(t, [])]"
  by (simp add: str_defs re_defs)

lemma why_cant_i_front:
  "rmatch (lit_ignorecase ''Why can't I '') (ustr ''Why can't I '' @ t, []) = [(t, [])]"
  by (simp add: str_defs re_defs)

lemma respond_with_group: "respond_with pre post [(1, g)] = Inr (ustr pre @ reflect g @ ustr post)"
  by (simp add: respond_with_def group_def)

text \<open>
  C10, as amended: in the two rules whose patterns end with \<^verbatim>\<open>\??\<close> the greedy group takes
  the question mark at the end of the input. For every \<open>w\<close> that is not empty and holds no
  newline character, on \<^verbatim>\<open>"Why don't you " + w + "?"\<close> group 1 is \<open>w\<close> with the question mark,
  and that whole fragment goes through \<^verbatim>\<open>reflect\<close> into the reply; likewise for
  \<^verbatim>\<open>"Why can't I " + w + "?"\<close>.
\<close>

theorem question_mark_is_captured:
  assumes "w \<noteq> []" and "10 \<notin> set w"
  shows "fullmatch (fst (patterns ! 1)) (ustr ''Why don't you '' @ w @ ustr ''?'')
           = Some [(1, w @ ustr ''?'')]
       \<and> get_eliza_response (ustr ''Why don't you '' @ w @ ustr ''?'')
           = Inr (ustr ''Do you really think I don't '' @ reflect (w @ ustr ''?'') @ ustr ''?'')
       \<and> fullmatch (fst (patterns ! 2)) (ustr ''Why can't I '' @ w @ ustr ''?'')
           = Some [(1, w @ ustr ''?'')]
       \<and> get_eliza_response (ustr ''Why can't I '' @ w @ ustr ''?'')
           = Inr (ustr ''Maybe you could '' @ reflect (w @ ustr ''?'') @ ustr '' if you tried.'')"
proof -
  let ?t = "w @ ustr ''?''"
  from assms have t: "10 \<notin> set ?t" "?t \<noteq> []" by (simp_all add: ustr_def)
  have dont: "fullmatch (seq [lit_ignorecase ''Why don't you '', any_capture, Opt (Atom (Lit 63))])
                (ustr ''Why don't you '' @ ?t) = Some [(1, ?t)]"
    by (rule fullmatch_capture_then_optional[OF why_dont_you_front t])
  have cant: "fullmatch (seq [lit_ignorecase ''Why can't I '', any_capture, Opt (Atom (Lit 63))])
                (ustr ''Why can't I '' @ ?t) = Some [(1, ?t)]"
    by (rule fullmatch_capture_then_optional[OF why_cant_i_front t])
  have need_dont: "fullmatch (seq [lit_ignorecase ''I need '', any_capture])
                (ustr ''Why don't you '' @ ?t) = None"
    by (simp add: str_defs re_defs)
  have need_cant: "fullmatch (seq [lit_ignorecase ''I need '', any_capture])
                (ustr ''Why can't I '' @ ?t) = None"
    by (simp add: str_defs re_defs)
  have dont_cant: "fullmatch (seq [lit_ignorecase ''Why don't you '', any_capture, Opt (Atom (Lit 63))])
                (ustr ''Why can't I '' @ ?t) = None"
    by (simp add: str_defs re_defs)
  have strip_dont: "strip (ustr ''Why don't you '' @ ?t) = ustr ''Why don't you '' @ ?t"
    using strip_no_space_at_ends[of 87 63 "ustr ''hy don't you '' @ w"]
    by (simp add: ustr_def isspace_def)
  have strip_cant: "strip (ustr ''Why can't I '' @ ?t) = ustr ''Why can't I '' @ ?t"
    using strip_no_space_at_ends[of 87 63 "ustr ''hy can't I '' @ w"]
    by (simp add: ustr_def isspace_def)
  have "get_eliza_response (ustr ''Why don't you '' @ ?t)
          = Inr (ustr ''Do you really think I don't '' @ reflect ?t @ ustr ''?'')"
    by (simp only: get_eliza_response_def strip_dont patterns_def first_response.simps
          need_dont dont option.case respond_with_group)
  moreover have "get_eliza_response (ustr ''Why can't I '' @ ?t)
          = Inr (ustr ''Maybe you could '' @ reflect ?t @ ustr '' if you tried.'')"
    by (simp only: get_eliza_response_def strip_cant patterns_def first_response.simps
          need_cant dont_cant cant option.case respond_with_group)
  moreover have "fst (patterns ! 1) = seq [lit_ignorecase ''Why don't you '', any_capture, Opt (Atom (Lit 63))]"
    "fst (patterns ! 2) = seq [lit_ignorecase ''Why can't I '', any_capture, Opt (Atom (Lit 63))]"
    by (simp_all add: patterns_def)
  ultimately show ?thesis using dont cant by simp
qed

text \<open>
  The theorem at \<open>w\<close> = \<^verbatim>\<open>"go home"\<close>: the reply ends with two question marks, the one the
  group took and the one of the template.
\<close>

theorem question_mark_is_captured_witness:
  "ustr ''go home'' \<noteq> [] \<and> 10 \<notin> set (ustr ''go home'')
   \<and> fullmatch (fst (patterns ! 1)) (ustr ''Why don't you go home?'') = Some [(1, ustr ''go home?'')]
   \<and> get_eliza_response (ustr ''Why don't you go home?'')
        = Inr (ustr ''Do you really think I don't go home??'')"
proof -
  have w: "ustr ''go home'' \<noteq> []" "10 \<notin> set (ustr ''go home'')"
    by (simp_all add: ustr_def)
  have r: "reflect (ustr ''go home'' @ ustr ''?'') = ustr ''go home?''"
    by (simp add: str_defs reflect_def reflections_def)
  from question_mark_is_captured[OF w] w r show ?thesis
    by (simp add: ustr_def)
qed

text \<open>
  C10 as it was stated holds for every \<open>w\<close> that is not empty. At \<open>w\<close> = \<^verbatim>\<open>"go\nhome"\<close> the
  rule does not match and nothing is captured: the reply is the fallback string.
\<close>

theorem newline_in_fragment_is_not_captured:
  "get_eliza_response (ustr ''Why don't you '' @ (ustr ''go'' @ [10] @ ustr ''home'') @ ustr ''?'')
     = Inr fallback
   \<and> fullmatch (fst (patterns ! 1))
        (ustr ''Why don't you '' @ (ustr ''go'' @ [10] @ ustr ''home'') @ ustr ''?'') = None
   \<and> ustr ''go'' @ [10] @ ustr ''home'' \<noteq> []"
  by (simp add: str_defs re_defs eliza_defs)

section \<open>Replies to fixed inputs\<close>

text \<open>
  C4: \<^verbatim>\<open>get_eliza_response\<close> answers \<^verbatim>\<open>"I need help"\<close> with \<^verbatim>\<open>"Why do you need help?"\<close>
  and \<^verbatim>\<open>"I am tired"\<close> with \<^verbatim>\<open>"How long have you been tired?"\<close>: the first rule of
  the table that matches the whole input fires (for the second input that is the fifth
  rule, none of the four before it matches), and its reply holds the reflected capture.
\<close>

theorem eliza_need_help_and_am_tired:
  "get_eliza_response (ustr ''I need help'') = Inr (ustr ''Why do you need help?'')
   \<and> get_eliza_response (ustr ''I am tired'') = Inr (ustr ''How long have you been tired?'')
   \<and> fullmatch (fst (patterns ! 0)) (ustr ''I need help'') = Some [(1, ustr ''help'')]
   \<and> fullmatch (fst (patterns ! 4)) (ustr ''I am tired'') = Some [(1, ustr ''tired'')]
   \<and> list_all (\<lambda>rule. fullmatch (fst rule) (ustr ''I am tired'') = None) (take 4 patterns)"
  by (simp add: str_defs re_defs eliza_defs)

text \<open>
  C5: \<^verbatim>\<open>get_eliza_response\<close> answers \<^verbatim>\<open>"I can't sleep"\<close> with
  \<^verbatim>\<open>"What makes you think you can't sleep?"\<close>, and \<^verbatim>\<open>"hello there"\<close>, which none of the
  seven specific rules matches, with the reply of the catch-all, \<^verbatim>\<open>"Please tell me more."\<close>.
\<close>

theorem eliza_cant_sleep_and_hello_there:
  "get_eliza_response (ustr ''I can't sleep'') = Inr (ustr ''What makes you think you can't sleep?'')
   \<and> get_eliza_response (ustr ''hello there'') = Inr (ustr ''Please tell me more.'')
   \<and> list_all (\<lambda>rule. fullmatch (fst rule) (ustr ''hello there'') = None) (take 7 patterns)
   \<and> fullmatch (fst (patterns ! 7)) (ustr ''hello there'') = Some [(1, ustr ''hello there'')]"
  by (simp add: str_defs re_defs eliza_defs)

section \<open>Reflection\<close>

lemma dict_get_reflect_word: "dict_get reflections w w = reflect_word w"
proof (cases "map_of reflections w")
  case None
  then have "w \<notin> fst ` set reflections" by (simp add: map_of_eq_None_iff)
  with None show ?thesis by (simp add: dict_get_def reflect_word_def)
next
  case (Some v)
  then have "(w, v) \<in> set reflections" by (rule map_of_SomeD)
  then have "w \<in> fst ` set reflections" by (rule rev_image_eqI) simp
  with Some show ?thesis by (simp add: dict_get_def reflect_word_def)
qed

lemma split_from_concat: "concat (split_from cur s) = cur @ filter (\<lambda>c. \<not> isspace c) s"
  by (induction s arbitrary: cur) simp_all

text \<open>
  C6: for every fragment, \<^verbatim>\<open>reflect\<close> is what its description says: the fragment is
  lowercased and split at white space, the words keep their order (put together they are
  the lowercased fragment without its white space), a word that is a key of the
  reflection map is replaced by the value of that key as it stands, any other word is
  kept, and the words are joined by single spaces. In particular
  \<^verbatim>\<open>reflect("i am happy")\<close> is \<^verbatim>\<open>"you are happy"\<close>.
\<close>

theorem reflect_meets_description:
  "reflect fragment = reflect_spec fragment
   \<and> concat (split (lower fragment)) = filter (\<lambda>c. \<not> isspace c) (lower fragment)
   \<and> reflect (ustr ''i am happy'') = ustr ''you are happy''
   \<and> reflect (ustr ''  YOU were   Mine '') = ustr ''I was mine''"
proof (intro conjI)
  show "reflect fragment = reflect_spec fragment"
    by (simp add: reflect_def reflect_spec_def dict_get_reflect_word)
  show "concat (split (lower fragment)) = filter (\<lambda>c. \<not> isspace c) (lower fragment)"
    by (simp add: split_def split_from_concat)
  show "reflect (ustr ''i am happy'') = ustr ''you are happy''"
    by (simp add: str_defs reflect_def reflections_def)
  show "reflect (ustr ''  YOU were   Mine '') = ustr ''I was mine''"
    by (simp add: str_defs reflect_def reflections_def)
qed

section \<open>The tokenizer on the example text\<close>

text \<open>
  C1: on \<^verbatim>\<open>"That U.S.A. poster-print costs $12.40..."\<close> the successive matches of the
  pattern are \<^verbatim>\<open>That\<close>, \<^verbatim>\<open>U.S.A.\<close>, \<^verbatim>\<open>poster-print\<close>, \<^verbatim>\<open>costs\<close>, \<^verbatim>\<open>$12.40\<close> and \<^verbatim>\<open>...\<close>, each the
  text of one match. What \<^verbatim>\<open>tokenize_text\<close> returns is not these texts: the pattern has
  three capturing groups, so each token is the tuple of the texts of the three groups,
  and none of the strings \<^verbatim>\<open>U.S.A.\<close>, \<^verbatim>\<open>poster-print\<close>, \<^verbatim>\<open>$12.40\<close>, \<^verbatim>\<open>...\<close> is a token.
\<close>

theorem tokenize_example_gives_group_tuples:
  "tokenize_text example_text =
     [Tup [[], [], []], Tup [ustr ''A.'', [], []], Tup [[], ustr ''-print'', []],
      Tup [[], [], []], Tup [[], [], ustr ''.40''], Tup [[], [], []]]
   \<and> matched_substrings tokenizer_pattern example_text =
     [ustr ''That'', ustr ''U.S.A.'', ustr ''poster-print'', ustr ''costs'', ustr ''$12.40'',
      ustr ''...'']
   \<and> max_group tokenizer_pattern = 3
   \<and> Str (ustr ''U.S.A.'') \<notin> set (tokenize_text example_text)
   \<and> Str (ustr ''poster-print'') \<notin> set (tokenize_text example_text)
   \<and> Str (ustr ''$12.40'') \<notin> set (tokenize_text example_text)
   \<and> Str (ustr ''...'') \<notin> set (tokenize_text example_text)"
  by (simp add: str_defs re_defs findall_defs tokenizer_defs)

section \<open>The guard of the pipeline\<close>

text \<open>
  C2, as amended: \<^verbatim>\<open>text_analysis_pipeline\<close> raises (a \<^verbatim>\<open>ValueError\<close>) if and only if its
  text is empty; it raises before anything is printed; for every other text, those of
  white space alone included, it prints its four lines and raises nothing.
\<close>

theorem pipeline_raises_iff_empty:
  "(snd (text_analysis_pipeline text) = Some (ValueError (ustr ''Text input cannot be empty.'') None))
     = (text = [])
   \<and> (snd (text_analysis_pipeline text) = None) = (text \<noteq> [])
   \<and> (fst (text_analysis_pipeline text) = []) = (text = [])
   \<and> length (fst (text_analysis_pipeline text)) = (if text = [] then 0 else 4)"
  by (simp add: text_analysis_pipeline_def Let_def split: prod.splits)

text \<open>The theorem at \<^verbatim>\<open>"12 %"\<close> and at the empty text.\<close>

theorem pipeline_raises_iff_empty_witness:
  "snd (text_analysis_pipeline (ustr ''12 %'')) = None
   \<and> fst (text_analysis_pipeline (ustr ''12 %'')) \<noteq> []
   \<and> snd (text_analysis_pipeline []) = Some (ValueError (ustr ''Text input cannot be empty.'') None)
   \<and> fst (text_analysis_pipeline []) = []"
  using pipeline_raises_iff_empty[of "ustr ''12 %''"] pipeline_raises_iff_empty[of "[]"]
  by (simp add: ustr_def)

text \<open>
  C2 as it was stated has the pipeline raise on a text of white space alone. On \<^verbatim>\<open>" "\<close> the
  guard \<^verbatim>\<open>if not text\<close> lets the text through, there is no token, and the four lines are
  printed.
\<close>

theorem pipeline_accepts_whitespace_only:
  "text_analysis_pipeline (ustr '' '') =
     ([NumberOfTokens 0, VocabularySize 0, VocabularySet {},
       EstimatedVocabularySize (heaps_law_estimation_default 0)], None)
   \<and> list_all isspace (ustr '' '')"
  by (simp add: str_defs re_defs findall_defs tokenizer_defs)

section \<open>The generic helper\<close>

text \<open>
  \<^verbatim>\<open>find_all_matches\<close> raises \<^verbatim>\<open>ValueError\<close> exactly when \<^verbatim>\<open>re.compile\<close> raised \<^verbatim>\<open>re.error\<close>;
  the message ends with the pattern and the cause is the error of the compilation. When
  the pattern compiles, the result is that of \<^verbatim>\<open>findall\<close>.
\<close>

lemma find_all_matches_raises_iff:
  "(\<exists>e. find_all_matches re_compile re_findall pattern text =
          Inl (ValueError (ustr ''Invalid regex pattern: '' @ pattern) (Some (ReError e))))
     = (\<exists>e. re_compile pattern = Inl (ReError e))"
  "(\<exists>e cause. find_all_matches re_compile re_findall pattern text = Inl (ValueError e cause))
     = (\<exists>e. re_compile pattern = Inl (ReError e))"
  "re_compile pattern = Inr compiled \<Longrightarrow>
     find_all_matches re_compile re_findall pattern text = Inr (re_findall compiled text)"
  by (auto simp: find_all_matches_def split: sum.splits exc.splits)

text \<open>
  C8: with the valid pattern \<^verbatim>\<open>(cat|dog)s?\<close> on the text of
  \<^verbatim>\<open>demonstrate_complex_disjunction\<close>, \<^verbatim>\<open>find_all_matches\<close> raises nothing, but what it
  returns is the list of the texts of group 1, \<^verbatim>\<open>dog\<close>, \<^verbatim>\<open>cat\<close>, \<^verbatim>\<open>dog\<close>, and not the list of
  the matching substrings, which are \<^verbatim>\<open>dogs\<close>, \<^verbatim>\<open>cat\<close>, \<^verbatim>\<open>dogs\<close>.
\<close>

theorem find_all_matches_returns_group_texts:
  "re_compile (ustr ''(cat|dog)s?'') = Inr cat_dog_pattern \<Longrightarrow>
     find_all_matches re_compile findall (ustr ''(cat|dog)s?'') plural_text
       = Inr [Str (ustr ''dog''), Str (ustr ''cat''), Str (ustr ''dog'')]
     \<and> matched_substrings cat_dog_pattern plural_text
       = [ustr ''dogs'', ustr ''cat'', ustr ''dogs'']"
  by (simp add: find_all_matches_def str_defs re_defs findall_defs tokenizer_defs)

text \<open>The theorem for a compiler that gives the compiled form of that pattern.\<close>

theorem find_all_matches_returns_group_texts_witness:
  "find_all_matches (\<lambda>pattern. Inr cat_dog_pattern) findall (ustr ''(cat|dog)s?'') plural_text
       = Inr [Str (ustr ''dog''), Str (ustr ''cat''), Str (ustr ''dog'')]
     \<and> matched_substrings cat_dog_pattern plural_text
       = [ustr ''dogs'', ustr ''cat'', ustr ''dogs'']"
  using find_all_matches_returns_group_texts[of "\<lambda>pattern. Inr cat_dog_pattern"] by simp

end
